theory Spec2Isabelle
  imports Complex_Main
begin

section \<open>Go values behind the empty interface\<close>

text \<open>
  The container keeps its entries in a \<^verbatim>\<open>sync.Map\<close>, whose keys and values have the
  static type \<^verbatim>\<open>any\<close>. An interface value is either the nil interface or a concrete
  value together with its dynamic type. A typed nil pointer boxed into \<^verbatim>\<open>any\<close> is a
  non-nil interface value: it carries the dynamic type of the pointer.

  A \<^verbatim>\<open>float64\<close> is not-a-number, an infinity, or a finite value (the two zeros, which
  compare equal, are one value here).
\<close>

datatype float64 = NaN | PosInf | NegInf | Finite real

datatype ctype = TInt | TString | TBool | TFloat64 | TPtr ctype

datatype dyn = DInt int | DString string | DBool bool | DFloat float64 | DPtr ctype "nat option"

fun typeof :: "dyn \<Rightarrow> ctype" where
  "typeof (DInt _) = TInt"
| "typeof (DString _) = TString"
| "typeof (DBool _) = TBool"
| "typeof (DFloat _) = TFloat64"
| "typeof (DPtr t _) = TPtr t"

text \<open>\<open>None\<close> is the nil interface value; \<open>Some d\<close> boxes the concrete value \<open>d\<close>.\<close>

type_synonym iface = "dyn option"

text \<open>
  The type arguments \<^verbatim>\<open>K\<close> and \<^verbatim>\<open>V\<close> of \<^verbatim>\<open>SyncMap[K, V]\<close>: a concrete type, or an
  interface type given by the set of concrete types that implement it (\<^verbatim>\<open>any\<close> is
  \<open>Interface UNIV\<close>). A value of static type \<open>T\<close> is represented by its conversion to
  \<^verbatim>\<open>any\<close>, which is what \<^verbatim>\<open>Store\<close> hands to the backing store.
\<close>

datatype gotype = Concrete ctype | Interface "ctype set"

fun implements :: "gotype \<Rightarrow> ctype \<Rightarrow> bool" where
  "implements (Concrete t) c = (c = t)"
| "implements (Interface S) c = (c \<in> S)"

fun is_interface :: "gotype \<Rightarrow> bool" where
  "is_interface (Concrete _) = False"
| "is_interface (Interface _) = True"

fun zero_dyn :: "ctype \<Rightarrow> dyn" where
  "zero_dyn TInt = DInt 0"
| "zero_dyn TString = DString []"
| "zero_dyn TBool = DBool False"
| "zero_dyn TFloat64 = DFloat (Finite 0)"
| "zero_dyn (TPtr t) = DPtr t None"

text \<open>\<^verbatim>\<open>var zero V\<close>: the zero value of an interface type is the nil interface.\<close>

fun zero_value :: "gotype \<Rightarrow> iface" where
  "zero_value (Concrete t) = Some (zero_dyn t)"
| "zero_value (Interface _) = None"

text \<open>What the compiler guarantees of an argument of static type \<open>T\<close>.\<close>

definition has_type :: "gotype \<Rightarrow> iface \<Rightarrow> bool" where
  "has_type T x = (case x of None \<Rightarrow> is_interface T | Some d \<Rightarrow> implements T (typeof d))"

text \<open>
  The language's nil of type \<open>T\<close>, where \<open>T\<close> has one: the nil pointer of a pointer type,
  the nil interface of an interface type.
\<close>

fun nil_of :: "gotype \<Rightarrow> iface option" where
  "nil_of (Concrete (TPtr t)) = Some (Some (DPtr t None))"
| "nil_of (Concrete _) = None"
| "nil_of (Interface _) = Some None"

text \<open>
  The comma-ok type assertion \<^verbatim>\<open>typedValue, typedOk := value.(V)\<close>. It fails on the nil
  interface for every \<open>V\<close>, and yields the zero value of \<open>V\<close> when it fails.
\<close>

definition type_assert :: "gotype \<Rightarrow> iface \<Rightarrow> iface \<times> bool" where
  "type_assert T x =
     (case x of
        None \<Rightarrow> (zero_value T, False)
      | Some d \<Rightarrow> if implements T (typeof d) then (Some d, True) else (zero_value T, False))"

text \<open>
  The comparison \<^verbatim>\<open>==\<close> of the language, which is how a map compares its keys. Two
  interface values are equal when both are nil, or when they have the same dynamic type
  and equal dynamic values. A not-a-number float is equal to nothing, itself included.
\<close>

fun float_eq :: "float64 \<Rightarrow> float64 \<Rightarrow> bool" where
  "float_eq NaN _ = False"
| "float_eq _ NaN = False"
| "float_eq a b = (a = b)"

fun dyn_eq :: "dyn \<Rightarrow> dyn \<Rightarrow> bool" where
  "dyn_eq (DInt a) (DInt b) = (a = b)"
| "dyn_eq (DString a) (DString b) = (a = b)"
| "dyn_eq (DBool a) (DBool b) = (a = b)"
| "dyn_eq (DFloat a) (DFloat b) = float_eq a b"
| "dyn_eq (DPtr t a) (DPtr t' b) = (t = t' \<and> a = b)"
| "dyn_eq _ _ = False"

fun go_eq :: "iface \<Rightarrow> iface \<Rightarrow> bool" where
  "go_eq None None = True"
| "go_eq (Some a) (Some b) = dyn_eq a b"
| "go_eq _ _ = False"

section \<open>Faults, mutexes and the process-wide state\<close>

text \<open>
  A call returns, panics with a value that \<^verbatim>\<open>recover\<close> would see, blocks forever
  (\<^verbatim>\<open>Lock\<close> on a held mutex, with nobody to release it), or kills the process (a fatal
  runtime error, which \<^verbatim>\<open>recover\<close> does not catch).
\<close>

datatype fault = Panic string | Blocked | Fatal string

definition andThen :: "fault + 'a \<Rightarrow> ('a \<Rightarrow> fault + 'b) \<Rightarrow> fault + 'b" where
  "andThen r f = (case r of Inl e \<Rightarrow> Inl e | Inr x \<Rightarrow> f x)"

text \<open>A method call through a pointer field; the field may be nil.\<close>

definition deref :: "'a option \<Rightarrow> fault + 'a" where
  "deref p = (case p of None \<Rightarrow> Inl (Panic ''nil pointer dereference'') | Some x \<Rightarrow> Inr x)"

text \<open>A \<^verbatim>\<open>sync.Mutex\<close>: \<open>True\<close> when held.\<close>

type_synonym mutex = bool

definition mutex_Lock :: "mutex \<Rightarrow> fault + mutex" where
  "mutex_Lock mu = (if mu then Inl Blocked else Inr True)"

definition mutex_Unlock :: "mutex \<Rightarrow> fault + mutex" where
  "mutex_Unlock mu = (if mu then Inr False else Inl (Fatal ''sync: unlock of unlocked mutex''))"

datatype diag = RangePanic string | RangeAssertFailed iface

text \<open>The package-level \<^verbatim>\<open>globalLock\<close> and the output of the standard logger.\<close>

record world =
  globalLock :: mutex
  logger :: "diag list"

section \<open>The backing store\<close>

text \<open>
  \<^verbatim>\<open>sync.Map\<close> as one goroutine sees it: a list of entries, whose order stands for the
  unspecified order of traversal. A key is matched with \<^verbatim>\<open>==\<close>, so a not-a-number key
  matches no entry: a lookup of it finds nothing, a store under it adds one more entry,
  and a delete of it removes nothing.
\<close>

type_synonym sync_Map = "(iface \<times> iface) list"

fun go_lookup :: "sync_Map \<Rightarrow> iface \<Rightarrow> iface option" where
  "go_lookup [] key = None"
| "go_lookup ((k, v) # ps) key = (if go_eq k key then Some v else go_lookup ps key)"

fun go_update :: "iface \<Rightarrow> iface \<Rightarrow> sync_Map \<Rightarrow> sync_Map" where
  "go_update key v [] = [(key, v)]"
| "go_update key v ((k, v') # ps) =
     (if go_eq k key then (k, v) # ps else (k, v') # go_update key v ps)"

definition go_delete :: "iface \<Rightarrow> sync_Map \<Rightarrow> sync_Map" where
  "go_delete key sm = filter (\<lambda>p. \<not> go_eq (fst p) key) sm"

definition sync_Load :: "sync_Map \<Rightarrow> iface \<Rightarrow> iface \<times> bool" where
  "sync_Load sm key = (case go_lookup sm key of None \<Rightarrow> (None, False) | Some v \<Rightarrow> (v, True))"

definition sync_Store :: "sync_Map \<Rightarrow> iface \<Rightarrow> iface \<Rightarrow> sync_Map" where
  "sync_Store sm key v = go_update key v sm"

definition sync_Delete :: "sync_Map \<Rightarrow> iface \<Rightarrow> sync_Map" where
  "sync_Delete sm key = go_delete key sm"


definition sync_LoadAndDelete :: "sync_Map \<Rightarrow> iface \<Rightarrow> (iface \<times> bool) \<times> sync_Map" where
  "sync_LoadAndDelete sm key =
     (case go_lookup sm key of
        Some v \<Rightarrow> ((v, True), go_delete key sm)
      | None \<Rightarrow> ((None, False), sm))"

definition sync_Swap :: "sync_Map \<Rightarrow> iface \<Rightarrow> iface \<Rightarrow> (iface \<times> bool) \<times> sync_Map" where
  "sync_Swap sm key v =
     (case go_lookup sm key of
        Some previous \<Rightarrow> ((previous, True), go_update key v sm)
      | None \<Rightarrow> ((None, False), go_update key v sm))"

text \<open>
  \<^verbatim>\<open>Range\<close> walks the entries present when it starts, each once. An entry whose key
  equals itself is handed to the callback with the value the key holds at that moment,
  and is passed over when the key has been deleted in the meantime. An entry under a
  not-a-number key cannot be reached by any store or delete, so it is still there with
  the value it had. The callback may change the map under traversal (as the one of
  \<^verbatim>\<open>Clear\<close> does) and carries a state \<open>'c\<close> of its own.
\<close>

fun range_loop ::
  "(iface \<Rightarrow> iface \<Rightarrow> sync_Map \<times> 'c \<Rightarrow> fault + (bool \<times> (sync_Map \<times> 'c)))
     \<Rightarrow> sync_Map \<Rightarrow> sync_Map \<times> 'c \<Rightarrow> fault + (sync_Map \<times> 'c)" where
  "range_loop f [] st = Inr st"
| "range_loop f ((key, v0) # rest) st =
     (case (if go_eq key key then go_lookup (fst st) key else Some v0) of
        None \<Rightarrow> range_loop f rest st
      | Some v \<Rightarrow>
          (case f key v st of
             Inl e \<Rightarrow> Inl e
           | Inr (continue, st') \<Rightarrow> if continue then range_loop f rest st' else Inr st'))"

definition sync_Range ::
  "(iface \<Rightarrow> iface \<Rightarrow> sync_Map \<times> 'c \<Rightarrow> fault + (bool \<times> (sync_Map \<times> 'c)))
     \<Rightarrow> sync_Map \<times> 'c \<Rightarrow> fault + (sync_Map \<times> 'c)" where
  "sync_Range f st = range_loop f (fst st) st"

section \<open>The container\<close>

text \<open>Both fields are pointers; \<open>None\<close> is the nil pointer of the zero value.\<close>

record SyncMap =
  syncMap :: "sync_Map option"
  localLock :: "mutex option"

definition zero_SyncMap :: SyncMap where
  "zero_SyncMap = \<lparr>syncMap = None, localLock = None\<rparr>"

text \<open>
  \<^verbatim>\<open>lazyInit\<close>: check, lock, check again, allocate; the deferred \<^verbatim>\<open>globalLock.Unlock()\<close>
  runs when the function returns.
\<close>

definition lazyInit :: "world \<times> SyncMap \<Rightarrow> fault + (world \<times> SyncMap)" where
  "lazyInit st =
     (case st of (w, m) \<Rightarrow>
        if syncMap m = None then
          andThen (mutex_Lock (globalLock w)) (\<lambda>g1.
            let m1 = (if syncMap m = None
                      then m\<lparr>syncMap := Some [], localLock := Some False\<rparr>
                      else m)
            in andThen (mutex_Unlock g1) (\<lambda>g2. Inr (w\<lparr>globalLock := g2\<rparr>, m1)))
        else Inr (w, m))"

subsection \<open>Typed accessors\<close>

definition Load :: "gotype \<Rightarrow> iface \<Rightarrow> world \<times> SyncMap \<Rightarrow> fault + ((iface \<times> bool) \<times> world \<times> SyncMap)" where
  "Load V key st =
     andThen (lazyInit st) (\<lambda>(w, m).
     andThen (deref (syncMap m)) (\<lambda>sm.
       let (v, ok) = sync_Load sm key;
           (typedValue, typedOk) = type_assert V v
       in Inr ((typedValue, typedOk \<and> ok \<and> v \<noteq> None), w, m)))"

definition Get :: "gotype \<Rightarrow> iface \<Rightarrow> world \<times> SyncMap \<Rightarrow> fault + (iface \<times> world \<times> SyncMap)" where
  "Get V key st =
     andThen (lazyInit st) (\<lambda>(w, m).
     andThen (deref (syncMap m)) (\<lambda>sm.
       let (v, ok) = sync_Load sm key;
           zero = zero_value V
       in if \<not> ok then Inr (zero, w, m)
          else if v = None then Inr (zero, w, m)
          else let (typedValue, typedOk) = type_assert V v
               in if \<not> typedOk then Inr (zero, w, m)
                  else Inr (typedValue, w, m)))"

text \<open>The variadic \<^verbatim>\<open>defaultValue ...V\<close> is the list of the arguments passed for it.\<close>

definition GetOrDefault ::
  "gotype \<Rightarrow> iface \<Rightarrow> iface list \<Rightarrow> world \<times> SyncMap \<Rightarrow> fault + (iface \<times> world \<times> SyncMap)" where
  "GetOrDefault V key defaultValue st =
     andThen (lazyInit st) (\<lambda>(w, m).
       let df = (if length defaultValue > 0 then hd defaultValue else zero_value V)
       in andThen (deref (syncMap m)) (\<lambda>sm.
            let (v, ok) = sync_Load sm key
            in if \<not> ok then Inr (df, w, m)
               else if v = None then Inr (df, w, m)
               else let (typedValue, typedOk) = type_assert V v
                    in if \<not> typedOk then Inr (df, w, m)
                       else Inr (typedValue, w, m)))"

definition LoadAndDelete ::
  "gotype \<Rightarrow> iface \<Rightarrow> world \<times> SyncMap \<Rightarrow> fault + ((iface \<times> bool) \<times> world \<times> SyncMap)" where
  "LoadAndDelete V key st =
     andThen (lazyInit st) (\<lambda>(w, m).
     andThen (deref (syncMap m)) (\<lambda>sm.
       let ((v, ok), sm') = sync_LoadAndDelete sm key;
           (typedValue, typedOk) = type_assert V v
       in Inr ((typedValue, typedOk \<and> ok \<and> v \<noteq> None), w, m\<lparr>syncMap := Some sm'\<rparr>)))"

definition Store :: "iface \<Rightarrow> iface \<Rightarrow> world \<times> SyncMap \<Rightarrow> fault + (world \<times> SyncMap)" where
  "Store key v st =
     andThen (lazyInit st) (\<lambda>(w, m).
     andThen (deref (syncMap m)) (\<lambda>sm.
       Inr (w, m\<lparr>syncMap := Some (sync_Store sm key v)\<rparr>)))"


definition Swap ::
  "gotype \<Rightarrow> iface \<Rightarrow> iface \<Rightarrow> world \<times> SyncMap \<Rightarrow> fault + ((iface \<times> bool) \<times> world \<times> SyncMap)" where
  "Swap V key v st =
     andThen (lazyInit st) (\<lambda>(w, m).
     andThen (deref (syncMap m)) (\<lambda>sm.
       let ((v', ok), sm') = sync_Swap sm key v;
           (typedV, typeOk) = type_assert V v'
       in Inr ((typedV, ok \<and> typeOk), w, m\<lparr>syncMap := Some sm'\<rparr>)))"

definition Delete :: "iface \<Rightarrow> world \<times> SyncMap \<Rightarrow> fault + (world \<times> SyncMap)" where
  "Delete key st =
     andThen (lazyInit st) (\<lambda>(w, m).
     andThen (deref (syncMap m)) (\<lambda>sm.
       Inr (w, m\<lparr>syncMap := Some (sync_Delete sm key)\<rparr>)))"

subsection \<open>Composite operations\<close>

text \<open>
  \<^verbatim>\<open>Clear\<close>: under the local lock, delete every key the traversal meets. The deferred
  \<^verbatim>\<open>Unlock\<close> runs when the function returns.
\<close>

definition Clear :: "world \<times> SyncMap \<Rightarrow> fault + (world \<times> SyncMap)" where
  "Clear st =
     andThen (lazyInit st) (\<lambda>(w, m).
     andThen (deref (localLock m)) (\<lambda>mu.
     andThen (mutex_Lock mu) (\<lambda>mu1.
     andThen (deref (syncMap m)) (\<lambda>sm.
     andThen (sync_Range (\<lambda>key _ (sm', u). Inr (True, (sync_Delete sm' key, u))) (sm, ())) (\<lambda>(sm', _).
     andThen (mutex_Unlock mu1) (\<lambda>mu2.
       Inr (w, m\<lparr>syncMap := Some sm', localLock := Some mu2\<rparr>)))))))"

text \<open>
  A visitor is the caller's \<^verbatim>\<open>fn\<close>: it sees the typed key and value, acts on the process
  state and on a state \<open>'s\<close> of the caller's own (what its closure captures), and either
  returns the continue signal or does not return normally. What it changed before a
  panic stays changed. It does not reach the container under traversal.

  \<^verbatim>\<open>wrappedFn\<close> is the closure that \<^verbatim>\<open>Range\<close> hands to the backing store. Its deferred
  function calls \<^verbatim>\<open>recover\<close>, which yields the value of a panic raised by \<^verbatim>\<open>fn\<close> (never
  nil while panicking) and nil otherwise; \<^verbatim>\<open>rtrn\<close> then still holds \<open>True\<close>.
\<close>

type_synonym 's visitor = "iface \<Rightarrow> iface \<Rightarrow> world \<times> 's \<Rightarrow> (fault + bool) \<times> (world \<times> 's)"

definition wrappedFn ::
  "gotype \<Rightarrow> gotype \<Rightarrow> 's visitor \<Rightarrow> iface \<Rightarrow> iface \<Rightarrow> world \<times> 's \<Rightarrow> fault + (bool \<times> (world \<times> 's))" where
  "wrappedFn K V fn key v st =
     (let rtrn = True;
          (typedKey, typedKeyOk) = type_assert K key;
          (typedValue, typedValueOk) = type_assert V v
      in if typedKeyOk \<and> typedValueOk then
           (case fn typedKey typedValue st of
              (Inr b, st') \<Rightarrow> Inr (b, st')
            | (Inl (Panic r), (w', s')) \<Rightarrow>
                Inr (rtrn, (w'\<lparr>logger := logger w' @ [RangePanic r]\<rparr>, s'))
            | (Inl Blocked, _) \<Rightarrow> Inl Blocked
            | (Inl (Fatal x), _) \<Rightarrow> Inl (Fatal x))
         else
           (case st of (w, s) \<Rightarrow>
              Inr (rtrn, (w\<lparr>logger := logger w @ [RangeAssertFailed key]\<rparr>, s))))"

definition Range' ::
  "gotype \<Rightarrow> gotype \<Rightarrow> 's visitor \<Rightarrow> (world \<times> SyncMap) \<times> 's \<Rightarrow> fault + ((world \<times> SyncMap) \<times> 's)" where
  "Range' K V fn st =
     (case st of (wm, s) \<Rightarrow>
        andThen (lazyInit wm) (\<lambda>(w, m).
        andThen (deref (localLock m)) (\<lambda>mu.
        andThen (mutex_Lock mu) (\<lambda>mu1.
        andThen (deref (syncMap m)) (\<lambda>sm.
        andThen (sync_Range
                   (\<lambda>key v (sm', c). andThen (wrappedFn K V fn key v c) (\<lambda>(b, c'). Inr (b, (sm', c'))))
                   (sm, (w, s))) (\<lambda>(sm', (w', s')).
        andThen (mutex_Unlock mu1) (\<lambda>mu2.
          Inr ((w', m\<lparr>syncMap := Some sm', localLock := Some mu2\<rparr>), s'))))))))"



section \<open>Vocabulary of the properties\<close>

text \<open>What \<^verbatim>\<open>lazyInit\<close> leaves behind when the global lock is free.\<close>

definition initialised :: "SyncMap \<Rightarrow> SyncMap" where
  "initialised m =
     (if syncMap m = None then m\<lparr>syncMap := Some [], localLock := Some False\<rparr> else m)"

text \<open>
  A container between two calls: either still the zero value, or allocated with its
  local lock free.
\<close>

definition idle :: "SyncMap \<Rightarrow> bool" where
  "idle m = ((syncMap m = None \<and> localLock m = None) \<or> (syncMap m \<noteq> None \<and> localLock m = Some False))"

text \<open>The entries of the backing store; the zero value has none.\<close>

definition entries :: "SyncMap \<Rightarrow> sync_Map" where
  "entries m = (case syncMap m of None \<Rightarrow> [] | Some sm \<Rightarrow> sm)"

text \<open>What a lookup of the key finds in the backing store.\<close>

definition holds :: "SyncMap \<Rightarrow> iface \<Rightarrow> iface option" where
  "holds m key = go_lookup (entries m) key"

text \<open>
  Every key that equals itself heads at most one entry. The empty store is so, and
  every store and delete keeps it so.
\<close>

definition keys_once :: "sync_Map \<Rightarrow> bool" where
  "keys_once sm = distinct (filter (\<lambda>k. go_eq k k) (map fst sm))"


text \<open>A key that \<^verbatim>\<open>Load\<close> finds: it holds a non-nil interface value of a type for \<open>V\<close>.\<close>

definition found :: "gotype \<Rightarrow> SyncMap \<Rightarrow> iface \<Rightarrow> bool" where
  "found V m key =
     (case holds m key of
        Some (Some d) \<Rightarrow> implements V (typeof d)
      | _ \<Rightarrow> False)"

text \<open>
  The visitor that behaves as \<open>fn\<close> does, except that where \<open>fn\<close> panics it reports the
  panic to the logger and returns the continue signal instead.
\<close>

definition as_continue :: "'s visitor \<Rightarrow> 's visitor" where
  "as_continue fn k v st =
     (case fn k v st of
        (Inl (Panic r), (w', s')) \<Rightarrow> (Inr True, (w'\<lparr>logger := logger w' @ [RangePanic r]\<rparr>, s'))
      | other \<Rightarrow> other)"

text \<open>
  The traversal in the words of its description: the entries are taken one after the
  other; an entry whose key or value fails its type assertion is reported and the
  traversal goes on; so is an entry on which the visitor panics; the traversal ends
  early only where the visitor returns the stop signal (or never returns).
\<close>

definition report :: "diag \<Rightarrow> world \<times> 's \<Rightarrow> world \<times> 's" where
  "report d c = (case c of (w, s) \<Rightarrow> (w\<lparr>logger := logger w @ [d]\<rparr>, s))"

fun traverse ::
  "gotype \<Rightarrow> gotype \<Rightarrow> 's visitor \<Rightarrow> sync_Map \<Rightarrow> world \<times> 's \<Rightarrow> fault + (world \<times> 's)" where
  "traverse K V fn [] c = Inr c"
| "traverse K V fn ((key, v) # rest) c =
     (if \<not> (snd (type_assert K key) \<and> snd (type_assert V v))
      then traverse K V fn rest (report (RangeAssertFailed key) c)
      else (case fn key v c of
              (Inl (Panic r), c') \<Rightarrow> traverse K V fn rest (report (RangePanic r) c')
            | (Inl Blocked, _) \<Rightarrow> Inl Blocked
            | (Inl (Fatal x), _) \<Rightarrow> Inl (Fatal x)
            | (Inr True, c') \<Rightarrow> traverse K V fn rest c'
            | (Inr False, c') \<Rightarrow> Inr c'))"

subsection \<open>Sample inputs\<close>

definition world0 :: world where
  "world0 = \<lparr>globalLock = False, logger = []\<rparr>"

definition mapA :: SyncMap where
  "mapA = \<lparr>syncMap = Some [(Some (DInt 1), Some (DString ''x'')), (Some (DInt 2), Some (DString ''y''))],
           localLock = Some False\<rparr>"


text \<open>A container of key type \<^verbatim>\<open>any\<close> with an entry under the nil key ahead of another.\<close>

definition mapNil :: SyncMap where
  "mapNil = \<lparr>syncMap = Some [(None, Some (DString ''x'')), (Some (DInt 1), Some (DString ''y''))],
             localLock = Some False\<rparr>"

text \<open>What \<^verbatim>\<open>Store(NaN, "x")\<close> makes of the zero value of \<^verbatim>\<open>SyncMap[float64, string]\<close>.\<close>

definition mapNaN :: SyncMap where
  "mapNaN = \<lparr>syncMap = Some [(Some (DFloat NaN), Some (DString ''x''))], localLock = Some False\<rparr>"

text \<open>A visitor that counts its invocations and panics on key 1.\<close>

definition panicsOnOne :: "nat visitor" where
  "panicsOnOne k v st =
     (case st of (w, n) \<Rightarrow>
        (if k = Some (DInt 1) then Inl (Panic ''boom'') else Inr True, (w, Suc n)))"

text \<open>A visitor that counts its invocations.\<close>

definition countCalls :: "nat visitor" where
  "countCalls k v st = (case st of (w, n) \<Rightarrow> (Inr True, (w, Suc n)))"

section \<open>Basic facts\<close>

lemma andThen_Inr [simp]: "andThen (Inr x) f = f x"
  by (simp add: andThen_def)

lemma andThen_Inl [simp]: "andThen (Inl e) f = Inl e"
  by (simp add: andThen_def)

lemma deref_Some [simp]: "deref (Some x) = Inr x"
  by (simp add: deref_def)

lemma world_unlock_free: "\<not> globalLock w \<Longrightarrow> w\<lparr>globalLock := False\<rparr> = w"
  by (cases w) simp

lemma lazyInit_free: "\<not> globalLock w \<Longrightarrow> lazyInit (w, m) = Inr (w, initialised m)"
  by (simp add: lazyInit_def initialised_def mutex_Lock_def mutex_Unlock_def world_unlock_free)

lemma syncMap_initialised: "syncMap (initialised m) = Some (entries m)"
  by (auto simp: initialised_def entries_def)

lemma entries_initialised: "entries (initialised m) = entries m"
  by (simp add: entries_def syncMap_initialised)

lemma entries_update: "entries (m\<lparr>syncMap := Some sm\<rparr>) = sm"
  by (simp add: entries_def)

lemma initialised_update: "initialised (m\<lparr>syncMap := Some sm\<rparr>) = m\<lparr>syncMap := Some sm\<rparr>"
  by (simp add: initialised_def)


lemma localLock_initialised: "idle m \<Longrightarrow> localLock (initialised m) = Some False"
  by (auto simp: idle_def initialised_def)

lemma initialised_restore:
  "idle m \<Longrightarrow> (initialised m)\<lparr>syncMap := Some (entries m), localLock := Some False\<rparr> = initialised m"
  by (cases m) (auto simp: idle_def initialised_def entries_def)


subsection \<open>Key comparison and the store\<close>

lemma float_eq_iff: "float_eq a b \<longleftrightarrow> a = b \<and> a \<noteq> NaN"
  by (cases a; cases b) auto

lemma dyn_eq_iff: "dyn_eq a b \<longleftrightarrow> a = b \<and> a \<noteq> DFloat NaN"
  by (cases a; cases b) (auto simp: float_eq_iff)

text \<open>Two keys match when they are the same key and that key is not not-a-number.\<close>

lemma go_eq_iff: "go_eq x y \<longleftrightarrow> x = y \<and> x \<noteq> Some (DFloat NaN)"
  by (cases x; cases y) (auto simp: dyn_eq_iff)

lemma go_lookup_unmatched: "\<not> go_eq key key \<Longrightarrow> go_lookup sm key = None"
  by (induction sm) (auto simp: go_eq_iff)

lemma go_lookup_Some_matched: "go_lookup sm key = Some v \<Longrightarrow> go_eq key key"
  using go_lookup_unmatched by fastforce


lemma go_lookup_update:
  "go_lookup (go_update key v sm) k = (if go_eq key k then Some v else go_lookup sm k)"
  by (induction sm) (auto simp: go_eq_iff)

lemma go_lookup_delete:
  "go_lookup (go_delete key sm) k = (if go_eq key k then None else go_lookup sm k)"
  by (induction sm) (auto simp: go_delete_def go_eq_iff)

lemma go_update_unmatched: "\<not> go_eq key key \<Longrightarrow> go_update key v sm = sm @ [(key, v)]"
  by (induction sm) (auto simp: go_eq_iff)

lemma go_delete_unmatched: "\<not> go_eq key key \<Longrightarrow> go_delete key sm = sm"
  by (auto simp: go_delete_def go_eq_iff filter_id_conv)

lemma go_update_member: "(key, v) \<in> set (go_update key v sm)"
  by (induction sm) (auto simp: go_eq_iff)

lemma keys_once_lookup:
  "keys_once sm \<Longrightarrow> (key, v) \<in> set sm \<Longrightarrow> go_eq key key \<Longrightarrow> go_lookup sm key = Some v"
proof (induction sm)
  case Nil
  then show ?case by simp
next
  case (Cons p ps)
  obtain k' v' where p: "p = (k', v')" by (cases p)
  show ?case
  proof (cases "go_eq k' key")
    case True
    then have kk: "k' = key" by (simp add: go_eq_iff)
    have "v' = v"
    proof (rule ccontr)
      assume "v' \<noteq> v"
      with Cons.prems(2) p kk have "(key, v) \<in> set ps" by auto
      then have "key \<in> set (filter (\<lambda>k. go_eq k k) (map fst ps))"
        using Cons.prems(3) by force
      with Cons.prems(1,3) p kk show False by (simp add: keys_once_def)
    qed
    with True p show ?thesis by simp
  next
    case False
    with Cons.prems(2,3) p have "(key, v) \<in> set ps" by (auto simp: go_eq_iff)
    moreover from Cons.prems(1) have "keys_once ps" by (auto simp: keys_once_def split: if_splits)
    ultimately show ?thesis using Cons.IH Cons.prems(3) False p by simp
  qed
qed

lemma keys_once_empty: "keys_once []"
  by (simp add: keys_once_def)

lemma map_fst_go_update:
  "map fst (go_update key v sm) =
     (if go_eq key key \<and> key \<in> fst ` set sm then map fst sm else map fst sm @ [key])"
  by (induction sm) (force simp: go_eq_iff)+

lemma keys_once_update: "keys_once sm \<Longrightarrow> keys_once (go_update key v sm)"
  by (auto simp: keys_once_def map_fst_go_update)

lemma keys_once_delete:
  assumes "keys_once sm"
  shows "keys_once (go_delete key sm)"
proof -
  have eq: "filter (\<lambda>k. go_eq k k) (map fst (go_delete key sm))
          = filter (\<lambda>k. \<not> go_eq k key) (filter (\<lambda>k. go_eq k k) (map fst sm))"
    by (induction sm) (auto simp: go_delete_def)
  from assms have "distinct (filter (\<lambda>k. \<not> go_eq k key) (filter (\<lambda>k. go_eq k k) (map fst sm)))"
    unfolding keys_once_def by (rule distinct_filter)
  then show ?thesis
    unfolding keys_once_def eq .
qed

subsection \<open>Type assertions\<close>

lemma type_assert_ok: "snd (type_assert T x) \<Longrightarrow> fst (type_assert T x) = x \<and> x \<noteq> None"
  by (auto simp: type_assert_def split: option.splits if_splits)

lemma type_assert_None: "type_assert T None = (zero_value T, False)"
  by (simp add: type_assert_def)

lemma type_assert_present: "implements V (typeof d) \<Longrightarrow> type_assert V (Some d) = (Some d, True)"
  by (simp add: type_assert_def)

lemma type_assert_typed: "has_type T x \<Longrightarrow> x \<noteq> None \<Longrightarrow> type_assert T x = (x, True)"
  by (auto simp: type_assert_def has_type_def split: option.splits)


subsection \<open>The accessors when the global lock is free\<close>

lemma Load_free:
  "\<not> globalLock w \<Longrightarrow>
   Load V k (w, m) =
     Inr ((fst (type_assert V (fst (sync_Load (entries m) k))),
           snd (type_assert V (fst (sync_Load (entries m) k))) \<and> snd (sync_Load (entries m) k)
             \<and> fst (sync_Load (entries m) k) \<noteq> None), w, initialised m)"
  by (simp add: Load_def lazyInit_free syncMap_initialised split_beta)

lemma Store_free:
  "\<not> globalLock w \<Longrightarrow>
   Store k v (w, m) = Inr (w, (initialised m)\<lparr>syncMap := Some (go_update k v (entries m))\<rparr>)"
  by (simp add: Store_def lazyInit_free syncMap_initialised sync_Store_def)

lemma holds_Store:
  "holds ((initialised m)\<lparr>syncMap := Some (go_update k v (entries m))\<rparr>) k'
     = (if go_eq k k' then Some v else holds m k')"
  by (simp add: holds_def entries_update go_lookup_update)

lemma LoadAndDelete_free:
  "\<not> globalLock w \<Longrightarrow>
   LoadAndDelete V k (w, m) =
     Inr ((fst (type_assert V (fst (fst (sync_LoadAndDelete (entries m) k)))),
           snd (type_assert V (fst (fst (sync_LoadAndDelete (entries m) k))))
             \<and> snd (fst (sync_LoadAndDelete (entries m) k))
             \<and> fst (fst (sync_LoadAndDelete (entries m) k)) \<noteq> None),
          w, (initialised m)\<lparr>syncMap := Some (snd (sync_LoadAndDelete (entries m) k))\<rparr>)"
  by (simp add: LoadAndDelete_def lazyInit_free syncMap_initialised split_beta)


lemma Swap_free:
  "\<not> globalLock w \<Longrightarrow>
   Swap V k v (w, m) =
     Inr ((fst (type_assert V (fst (fst (sync_Swap (entries m) k v)))),
           snd (fst (sync_Swap (entries m) k v))
             \<and> snd (type_assert V (fst (fst (sync_Swap (entries m) k v))))),
          w, (initialised m)\<lparr>syncMap := Some (snd (sync_Swap (entries m) k v))\<rparr>)"
  by (simp add: Swap_def lazyInit_free syncMap_initialised split_beta)

lemma Get_free:
  "\<not> globalLock w \<Longrightarrow>
   Get V k (w, m) =
     Inr (case holds m k of
            None \<Rightarrow> zero_value V
          | Some None \<Rightarrow> zero_value V
          | Some (Some d) \<Rightarrow> if implements V (typeof d) then Some d else zero_value V,
          w, initialised m)"
  by (simp add: Get_def lazyInit_free syncMap_initialised sync_Load_def holds_def type_assert_def
      split: option.splits)

section \<open>The typed accessors\<close>

text \<open>
  Claim C1, as the code has it. A key that the backing store does not hold loads as the
  zero value of \<open>V\<close> with found \<open>False\<close>; and after \<^verbatim>\<open>Store(k, v)\<close> of a value \<open>v\<close> of type
  \<open>V\<close> that is not the nil of \<open>V\<close>, under a key that equals itself, \<^verbatim>\<open>Load(k)\<close> returns
  \<open>v\<close> with found \<open>True\<close>.
\<close>

theorem Load_absent_or_stored:
  assumes "\<not> globalLock w"
  shows "(holds m k = None \<longrightarrow> Load V k (w, m) = Inr ((zero_value V, False), w, initialised m)) \<and>
         (has_type V v \<and> nil_of V \<noteq> Some v \<and> go_eq k k \<longrightarrow>
            (\<exists>m1. Store k v (w, m) = Inr (w, m1) \<and> Load V k (w, m1) = Inr ((v, True), w, m1)))"
proof (intro conjI impI)
  assume "holds m k = None"
  then show "Load V k (w, m) = Inr ((zero_value V, False), w, initialised m)"
    using assms by (simp add: Load_free holds_def sync_Load_def type_assert_None)
next
  assume tv: "has_type V v \<and> nil_of V \<noteq> Some v \<and> go_eq k k"
  then have nn: "v \<noteq> None"
    by (cases V) (auto simp: has_type_def split: option.splits)
  with tv have ta: "type_assert V v = (v, True)"
    by (simp add: type_assert_typed)
  let ?m1 = "(initialised m)\<lparr>syncMap := Some (go_update k v (entries m))\<rparr>"
  have "Store k v (w, m) = Inr (w, ?m1)"
    using assms by (rule Store_free)
  moreover have "Load V k (w, ?m1) = Inr ((v, True), w, ?m1)"
    using assms nn ta tv
    by (simp add: Load_free entries_update initialised_update sync_Load_def go_lookup_update)
  ultimately show "\<exists>m1. Store k v (w, m) = Inr (w, m1) \<and> Load V k (w, m1) = Inr ((v, True), w, m1)"
    by blast
qed

theorem Load_absent_or_stored_witness:
  "\<not> globalLock world0 \<and>
   holds mapA (Some (DInt 3)) = None \<and>
   Load (Concrete TString) (Some (DInt 3)) (world0, mapA) = Inr ((Some (DString []), False), world0, mapA) \<and>
   has_type (Concrete TString) (Some (DString ''v'')) \<and>
   nil_of (Concrete TString) \<noteq> Some (Some (DString ''v'')) \<and>
   go_eq (Some (DInt 3)) (Some (DInt 3)) \<and>
   (\<exists>m1. Store (Some (DInt 3)) (Some (DString ''v'')) (world0, mapA) = Inr (world0, m1) \<and>
         Load (Concrete TString) (Some (DInt 3)) (world0, m1) = Inr ((Some (DString ''v''), True), world0, m1))"
proof -
  have h: "\<not> globalLock world0" by (simp add: world0_def)
  have a: "holds mapA (Some (DInt 3)) = None" by (simp add: holds_def entries_def mapA_def)
  have t: "has_type (Concrete TString) (Some (DString ''v'')) \<and>
           nil_of (Concrete TString) \<noteq> Some (Some (DString ''v'')) \<and>
           go_eq (Some (DInt 3)) (Some (DInt 3))"
    by (simp add: has_type_def)
  have i: "initialised mapA = mapA" by (simp add: initialised_def mapA_def)
  from Load_absent_or_stored[OF h, of mapA "Some (DInt 3)" "Concrete TString" "Some (DString ''v'')"] a t i h
  show ?thesis by simp
qed

text \<open>
  Claim C1, as stated, at a not-a-number key of \<^verbatim>\<open>SyncMap[float64, string]\<close>: the store
  adds an entry that no lookup matches, and the \<^verbatim>\<open>Load\<close> that follows finds nothing.
\<close>

theorem Store_then_Load_NaN_counterexample:
  "has_type (Concrete TFloat64) (Some (DFloat NaN)) \<and>
   has_type (Concrete TString) (Some (DString ''v'')) \<and>
   nil_of (Concrete TString) \<noteq> Some (Some (DString ''v'')) \<and>
   Store (Some (DFloat NaN)) (Some (DString ''v''))
         (world0, \<lparr>syncMap = Some [], localLock = Some False\<rparr>)
     = Inr (world0, \<lparr>syncMap = Some [(Some (DFloat NaN), Some (DString ''v''))], localLock = Some False\<rparr>) \<and>
   Load (Concrete TString) (Some (DFloat NaN))
        (world0, \<lparr>syncMap = Some [(Some (DFloat NaN), Some (DString ''v''))], localLock = Some False\<rparr>)
     = Inr ((Some (DString []), False),
            world0, \<lparr>syncMap = Some [(Some (DFloat NaN), Some (DString ''v''))], localLock = Some False\<rparr>)"
  by (simp add: world0_def Store_free Load_free initialised_def entries_def
      sync_Load_def type_assert_def has_type_def)

text \<open>
  Claim C2. After \<^verbatim>\<open>Store(k, nil)\<close>, \<^verbatim>\<open>Load(k)\<close> reports the key as not found, for every
  value type that has a nil. The code does so when \<open>V\<close> is an interface type
  (\<open>Store_nil_interface_then_Load\<close>); when \<open>V\<close> is a pointer type, the stored nil pointer is
  boxed with its dynamic type, the comparison \<^verbatim>\<open>value != nil\<close> holds of it, and \<^verbatim>\<open>Load\<close>
  returns the nil pointer with found \<open>True\<close>.
\<close>

lemma Store_nil_interface_then_Load:
  assumes "\<not> globalLock w"
  shows "\<exists>m1. Store k None (w, m) = Inr (w, m1) \<and> Load V k (w, m1) = Inr ((zero_value V, False), w, m1)"
proof -
  let ?m1 = "(initialised m)\<lparr>syncMap := Some (go_update k None (entries m))\<rparr>"
  have "Store k None (w, m) = Inr (w, ?m1)"
    using assms by (rule Store_free)
  moreover have "Load V k (w, ?m1) = Inr ((zero_value V, False), w, ?m1)"
    using assms
    by (cases "go_eq k k")
       (simp_all add: Load_free entries_update initialised_update sync_Load_def go_lookup_update
          type_assert_None go_lookup_unmatched)
  ultimately show ?thesis by blast
qed

theorem Store_nil_pointer_then_Load:
  "nil_of (Concrete (TPtr TInt)) = Some (Some (DPtr TInt None)) \<and>
   Store (Some (DInt 1)) (Some (DPtr TInt None)) (world0, zero_SyncMap)
     = Inr (world0, \<lparr>syncMap = Some [(Some (DInt 1), Some (DPtr TInt None))], localLock = Some False\<rparr>) \<and>
   Load (Concrete (TPtr TInt)) (Some (DInt 1))
        (world0, \<lparr>syncMap = Some [(Some (DInt 1), Some (DPtr TInt None))], localLock = Some False\<rparr>)
     = Inr ((Some (DPtr TInt None), True),
            world0, \<lparr>syncMap = Some [(Some (DInt 1), Some (DPtr TInt None))], localLock = Some False\<rparr>)"
  by (simp add: world0_def zero_SyncMap_def Store_free Load_free initialised_def entries_def
      sync_Load_def type_assert_def)




text \<open>
  Claim C6. On a key holding a non-nil value of type \<open>V\<close>, \<^verbatim>\<open>LoadAndDelete(k)\<close> returns
  that value with found \<open>True\<close> and removes the entry in the same step; a following
  \<^verbatim>\<open>Load(k)\<close> returns the zero value with found \<open>False\<close>.
\<close>

theorem LoadAndDelete_present:
  assumes "\<not> globalLock w" and "holds m k = Some (Some d)" and "implements V (typeof d)"
  shows "\<exists>m1. LoadAndDelete V k (w, m) = Inr ((Some d, True), w, m1) \<and>
              holds m1 k = None \<and>
              Load V k (w, m1) = Inr ((zero_value V, False), w, m1)"
proof -
  let ?m1 = "(initialised m)\<lparr>syncMap := Some (go_delete k (entries m))\<rparr>"
  from assms(2) have s: "sync_LoadAndDelete (entries m) k = ((Some d, True), go_delete k (entries m))"
    by (simp add: sync_LoadAndDelete_def holds_def)
  from assms(2) have g: "go_eq k k"
    by (auto simp: holds_def dest: go_lookup_Some_matched)
  have 1: "LoadAndDelete V k (w, m) = Inr ((Some d, True), w, ?m1)"
    using assms by (simp add: LoadAndDelete_free s type_assert_present)
  have 2: "holds ?m1 k = None"
    using g by (simp add: holds_def entries_update go_lookup_delete)
  have 3: "Load V k (w, ?m1) = Inr ((zero_value V, False), w, ?m1)"
    using assms(1) g
    by (simp add: Load_free entries_update initialised_update sync_Load_def go_lookup_delete type_assert_None)
  from 1 2 3 show ?thesis by blast
qed

theorem LoadAndDelete_present_witness:
  "\<not> globalLock world0 \<and>
   holds mapA (Some (DInt 1)) = Some (Some (DString ''x'')) \<and>
   implements (Concrete TString) (typeof (DString ''x'')) \<and>
   (\<exists>m1. LoadAndDelete (Concrete TString) (Some (DInt 1)) (world0, mapA)
            = Inr ((Some (DString ''x''), True), world0, m1) \<and>
         holds m1 (Some (DInt 1)) = None \<and>
         Load (Concrete TString) (Some (DInt 1)) (world0, m1) = Inr ((Some (DString []), False), world0, m1))"
proof -
  have h: "\<not> globalLock world0" by (simp add: world0_def)
  have p: "holds mapA (Some (DInt 1)) = Some (Some (DString ''x''))"
    by (simp add: holds_def entries_def mapA_def)
  have t: "implements (Concrete TString) (typeof (DString ''x''))" by simp
  from LoadAndDelete_present[OF h p t] h p t show ?thesis by simp
qed

text \<open>
  Claim C7. On a key holding a non-nil value of type \<open>V\<close>, \<^verbatim>\<open>Swap(k, v)\<close> returns the
  previous value with loaded \<open>True\<close> and the key then holds \<open>v\<close>; on a key that the backing
  store does not hold it returns the zero value with loaded \<open>False\<close> and stores \<open>v\<close>: the
  store then has the entry \<open>(k, v)\<close>, which a lookup of \<open>k\<close> finds when \<open>k\<close> equals itself.
\<close>

theorem Swap_present_or_absent:
  assumes "\<not> globalLock w"
  shows "(holds m k = Some (Some d) \<and> implements V (typeof d) \<longrightarrow>
            (\<exists>m1. Swap V k v (w, m) = Inr ((Some d, True), w, m1) \<and> holds m1 k = Some v)) \<and>
         (holds m k = None \<longrightarrow>
            (\<exists>m1. Swap V k v (w, m) = Inr ((zero_value V, False), w, m1) \<and>
                  (k, v) \<in> set (entries m1) \<and> (go_eq k k \<longrightarrow> holds m1 k = Some v)))"
proof (intro conjI impI)
  let ?m1 = "(initialised m)\<lparr>syncMap := Some (go_update k v (entries m))\<rparr>"
  assume a: "holds m k = Some (Some d) \<and> implements V (typeof d)"
  then have s: "sync_Swap (entries m) k v = ((Some d, True), go_update k v (entries m))"
    by (simp add: sync_Swap_def holds_def)
  from a have g: "go_eq k k"
    by (auto simp: holds_def dest: go_lookup_Some_matched)
  have "Swap V k v (w, m) = Inr ((Some d, True), w, ?m1)"
    using assms a by (simp add: Swap_free s type_assert_present)
  moreover have "holds ?m1 k = Some v" using g by (simp add: holds_Store)
  ultimately show "\<exists>m1. Swap V k v (w, m) = Inr ((Some d, True), w, m1) \<and> holds m1 k = Some v"
    by blast
next
  let ?m1 = "(initialised m)\<lparr>syncMap := Some (go_update k v (entries m))\<rparr>"
  assume a: "holds m k = None"
  then have s: "sync_Swap (entries m) k v = ((None, False), go_update k v (entries m))"
    by (simp add: sync_Swap_def holds_def)
  have "Swap V k v (w, m) = Inr ((zero_value V, False), w, ?m1)"
    using assms by (simp add: Swap_free s type_assert_None)
  moreover have "(k, v) \<in> set (entries ?m1)"
    by (simp add: entries_update go_update_member)
  moreover have "go_eq k k \<longrightarrow> holds ?m1 k = Some v" by (simp add: holds_Store)
  ultimately show "\<exists>m1. Swap V k v (w, m) = Inr ((zero_value V, False), w, m1) \<and>
                  (k, v) \<in> set (entries m1) \<and> (go_eq k k \<longrightarrow> holds m1 k = Some v)"
    by blast
qed

theorem Swap_present_or_absent_witness:
  "\<not> globalLock world0 \<and>
   holds mapA (Some (DInt 1)) = Some (Some (DString ''x'')) \<and>
   implements (Concrete TString) (typeof (DString ''x'')) \<and>
   (\<exists>m1. Swap (Concrete TString) (Some (DInt 1)) (Some (DString ''v'')) (world0, mapA)
            = Inr ((Some (DString ''x''), True), world0, m1) \<and>
         holds m1 (Some (DInt 1)) = Some (Some (DString ''v''))) \<and>
   holds mapA (Some (DInt 3)) = None \<and> go_eq (Some (DInt 3)) (Some (DInt 3)) \<and>
   (\<exists>m1. Swap (Concrete TString) (Some (DInt 3)) (Some (DString ''v'')) (world0, mapA)
            = Inr ((Some (DString []), False), world0, m1) \<and>
         holds m1 (Some (DInt 3)) = Some (Some (DString ''v'')))"
proof -
  have h: "\<not> globalLock world0" by (simp add: world0_def)
  have p: "holds mapA (Some (DInt 1)) = Some (Some (DString ''x'')) \<and>
           implements (Concrete TString) (typeof (DString ''x''))"
    by (simp add: holds_def entries_def mapA_def)
  have a: "holds mapA (Some (DInt 3)) = None \<and> go_eq (Some (DInt 3)) (Some (DInt 3))"
    by (simp add: holds_def entries_def mapA_def)
  from Swap_present_or_absent[OF h, of mapA "Some (DInt 1)" "DString ''x''" "Concrete TString" "Some (DString ''v'')"]
       Swap_present_or_absent[OF h, of mapA "Some (DInt 3)" "DString ''x''" "Concrete TString" "Some (DString ''v'')"]
       h p a
  show ?thesis by auto
qed

text \<open>
  Claim C9, as the code has it. On the zero value of the container, \<^verbatim>\<open>Store(k, v)\<close>
  returns normally: the first operation allocates the backing store and the local lock,
  no later \<^verbatim>\<open>lazyInit\<close> allocates again, and, when \<open>k\<close> equals itself, a following
  \<^verbatim>\<open>Load(k)\<close> returns the stored value (found unless \<open>v\<close> is the nil interface).
\<close>

theorem zero_value_Store_then_Load:
  assumes "\<not> globalLock w" and "has_type V v"
  shows "lazyInit (w, zero_SyncMap) = Inr (w, \<lparr>syncMap = Some [], localLock = Some False\<rparr>) \<and>
         Store k v (w, zero_SyncMap) = Inr (w, \<lparr>syncMap = Some [(k, v)], localLock = Some False\<rparr>) \<and>
         lazyInit (w, \<lparr>syncMap = Some [(k, v)], localLock = Some False\<rparr>)
           = Inr (w, \<lparr>syncMap = Some [(k, v)], localLock = Some False\<rparr>) \<and>
         (go_eq k k \<longrightarrow>
            Load V k (w, \<lparr>syncMap = Some [(k, v)], localLock = Some False\<rparr>)
              = Inr ((v, v \<noteq> None), w, \<lparr>syncMap = Some [(k, v)], localLock = Some False\<rparr>))"
proof (intro conjI impI)
  show "lazyInit (w, zero_SyncMap) = Inr (w, \<lparr>syncMap = Some [], localLock = Some False\<rparr>)"
    using assms(1) by (simp add: lazyInit_free initialised_def zero_SyncMap_def)
  show "Store k v (w, zero_SyncMap) = Inr (w, \<lparr>syncMap = Some [(k, v)], localLock = Some False\<rparr>)"
    using assms(1) by (simp add: Store_free initialised_def entries_def zero_SyncMap_def)
  show "lazyInit (w, \<lparr>syncMap = Some [(k, v)], localLock = Some False\<rparr>)
           = Inr (w, \<lparr>syncMap = Some [(k, v)], localLock = Some False\<rparr>)"
    by (simp add: lazyInit_def)
  assume g: "go_eq k k"
  show "Load V k (w, \<lparr>syncMap = Some [(k, v)], localLock = Some False\<rparr>)
           = Inr ((v, v \<noteq> None), w, \<lparr>syncMap = Some [(k, v)], localLock = Some False\<rparr>)"
  proof (cases v)
    case None
    with assms(2) have "zero_value V = None" by (cases V) (simp_all add: has_type_def)
    with None assms(1) g show ?thesis
      by (simp add: Load_free initialised_def entries_def sync_Load_def type_assert_None)
  next
    case (Some d)
    with assms(2) have "type_assert V v = (v, True)" by (simp add: type_assert_typed)
    with Some assms(1) g show ?thesis
      by (simp add: Load_free initialised_def entries_def sync_Load_def)
  qed
qed

theorem zero_value_Store_then_Load_witness:
  "\<not> globalLock world0 \<and> has_type (Concrete TInt) (Some (DInt 5)) \<and>
   go_eq (Some (DString ''timeout'')) (Some (DString ''timeout'')) \<and>
   Store (Some (DString ''timeout'')) (Some (DInt 5)) (world0, zero_SyncMap)
     = Inr (world0, \<lparr>syncMap = Some [(Some (DString ''timeout''), Some (DInt 5))], localLock = Some False\<rparr>) \<and>
   Load (Concrete TInt) (Some (DString ''timeout''))
        (world0, \<lparr>syncMap = Some [(Some (DString ''timeout''), Some (DInt 5))], localLock = Some False\<rparr>)
     = Inr ((Some (DInt 5), True),
            world0, \<lparr>syncMap = Some [(Some (DString ''timeout''), Some (DInt 5))], localLock = Some False\<rparr>)"
proof -
  have h: "\<not> globalLock world0" by (simp add: world0_def)
  have t: "has_type (Concrete TInt) (Some (DInt 5))" by (simp add: has_type_def)
  have g: "go_eq (Some (DString ''timeout'')) (Some (DString ''timeout''))" by simp
  from zero_value_Store_then_Load[OF h t, of "Some (DString ''timeout'')"] h t g
  show ?thesis by simp
qed

text \<open>
  Claim C9, as stated, at a not-a-number key on the zero value of
  \<^verbatim>\<open>SyncMap[float64, int]\<close>: the store succeeds, but the \<^verbatim>\<open>Load\<close> that follows returns the
  zero value and found \<open>False\<close>, not the stored 5.
\<close>

theorem zero_value_Store_NaN_counterexample:
  "has_type (Concrete TFloat64) (Some (DFloat NaN)) \<and> has_type (Concrete TInt) (Some (DInt 5)) \<and>
   Store (Some (DFloat NaN)) (Some (DInt 5)) (world0, zero_SyncMap)
     = Inr (world0, \<lparr>syncMap = Some [(Some (DFloat NaN), Some (DInt 5))], localLock = Some False\<rparr>) \<and>
   Load (Concrete TInt) (Some (DFloat NaN))
        (world0, \<lparr>syncMap = Some [(Some (DFloat NaN), Some (DInt 5))], localLock = Some False\<rparr>)
     = Inr ((Some (DInt 0), False),
            world0, \<lparr>syncMap = Some [(Some (DFloat NaN), Some (DInt 5))], localLock = Some False\<rparr>) \<and>
   Some (DInt 0) \<noteq> Some (DInt 5)"
  by (simp add: world0_def zero_SyncMap_def Store_free Load_free initialised_def entries_def
      sync_Load_def type_assert_def has_type_def)

text \<open>
  Claim C10. \<^verbatim>\<open>Get(k)\<close> returns what \<^verbatim>\<open>GetOrDefault(k)\<close> returns when no default is
  passed, in every state; and both return the zero value of \<open>V\<close> when the key is absent,
  when it holds nil, and when it holds a value whose dynamic type is not \<open>V\<close>.
\<close>

theorem Get_is_GetOrDefault_without_default:
  "Get V k st = GetOrDefault V k [] st \<and>
   (\<not> globalLock w \<and>
    (holds m k = None \<or> (\<exists>n. nil_of V = Some n \<and> holds m k = Some n) \<or> holds m k = Some None \<or>
     (\<exists>d. holds m k = Some (Some d) \<and> \<not> implements V (typeof d))) \<longrightarrow>
    Get V k (w, m) = Inr (zero_value V, w, initialised m) \<and>
    GetOrDefault V k [] (w, m) = Inr (zero_value V, w, initialised m))"
proof -
  have eq: "\<And>st. Get V k st = GetOrDefault V k [] st"
    by (simp add: Get_def GetOrDefault_def Let_def)
  have nil: "\<And>n. nil_of V = Some n \<Longrightarrow>
      (case Some n of None \<Rightarrow> zero_value V | Some None \<Rightarrow> zero_value V
       | Some (Some d) \<Rightarrow> if implements V (typeof d) then Some d else zero_value V) = zero_value V"
    by (cases V rule: nil_of.cases) auto
  have "\<not> globalLock w \<and>
    (holds m k = None \<or> (\<exists>n. nil_of V = Some n \<and> holds m k = Some n) \<or> holds m k = Some None \<or>
     (\<exists>d. holds m k = Some (Some d) \<and> \<not> implements V (typeof d))) \<longrightarrow>
    Get V k (w, m) = Inr (zero_value V, w, initialised m)"
    using nil by (auto simp: Get_free)
  with eq show ?thesis by metis
qed

theorem Get_is_GetOrDefault_without_default_witness:
  "\<not> globalLock world0 \<and> holds mapA (Some (DInt 3)) = None \<and>
   Get (Concrete TString) (Some (DInt 3)) (world0, mapA) = Inr (Some (DString []), world0, mapA) \<and>
   GetOrDefault (Concrete TString) (Some (DInt 3)) [] (world0, mapA) = Inr (Some (DString []), world0, mapA) \<and>
   Get (Concrete TString) (Some (DInt 1)) (world0, mapA)
     = GetOrDefault (Concrete TString) (Some (DInt 1)) [] (world0, mapA)"
proof -
  have h: "\<not> globalLock world0" by (simp add: world0_def)
  have a: "holds mapA (Some (DInt 3)) = None" by (simp add: holds_def entries_def mapA_def)
  have i: "initialised mapA = mapA" by (simp add: initialised_def mapA_def)
  from Get_is_GetOrDefault_without_default[of "Concrete TString" "Some (DInt 3)" "(world0, mapA)" world0 mapA]
       Get_is_GetOrDefault_without_default[of "Concrete TString" "Some (DInt 1)" "(world0, mapA)" world0 mapA]
       h a i
  show ?thesis by simp
qed

section \<open>The composite operations\<close>

subsection \<open>Clear\<close>

lemma go_lookup_None_iff: "go_eq key key \<Longrightarrow> go_lookup sm key = None \<longleftrightarrow> key \<notin> fst ` set sm"
  by (induction sm) (auto simp: go_eq_iff split: if_splits)

text \<open>
  The loop of \<^verbatim>\<open>Clear\<close> removes the entries under the keys it meets that equal
  themselves, and no other.
\<close>

lemma clear_loop:
  "range_loop (\<lambda>key _ (sm', u). Inr (True, (sync_Delete sm' key, u))) es (sm, ())
     = Inr (filter (\<lambda>p. \<not> (go_eq (fst p) (fst p) \<and> fst p \<in> fst ` set es)) sm, ())"
proof (induction es arbitrary: sm)
  case Nil
  then show ?case by simp
next
  case (Cons e es)
  obtain key v0 where e: "e = (key, v0)" by (cases e)
  show ?case
  proof (cases "go_eq key key")
    case True
    show ?thesis
    proof (cases "go_lookup sm key")
      case None
      with True have "key \<notin> fst ` set sm" by (simp add: go_lookup_None_iff)
      then have "filter (\<lambda>p. \<not> (go_eq (fst p) (fst p) \<and> fst p \<in> fst ` set (e # es))) sm
                   = filter (\<lambda>p. \<not> (go_eq (fst p) (fst p) \<and> fst p \<in> fst ` set es)) sm"
        using e by (intro filter_cong) auto
      with None True e Cons show ?thesis by simp
    next
      case (Some v)
      have "filter (\<lambda>p. \<not> (go_eq (fst p) (fst p) \<and> fst p \<in> fst ` set es)) (go_delete key sm)
              = filter (\<lambda>p. \<not> (go_eq (fst p) (fst p) \<and> fst p \<in> fst ` set (e # es))) sm"
        using e True by (auto simp: go_delete_def go_eq_iff intro: filter_cong)
      with Some True e Cons show ?thesis by (simp add: sync_Delete_def)
    qed
  next
    case False
    then have "filter (\<lambda>p. \<not> (go_eq (fst p) (fst p) \<and> fst p \<in> fst ` set (e # es))) sm
                 = filter (\<lambda>p. \<not> (go_eq (fst p) (fst p) \<and> fst p \<in> fst ` set es)) sm"
      using e by (intro filter_cong) auto
    with False e Cons show ?thesis by (simp add: sync_Delete_def go_delete_unmatched)
  qed
qed

lemma sync_Range_clear:
  "sync_Range (\<lambda>key _ (sm', u). Inr (True, (sync_Delete sm' key, u))) (sm, ())
     = Inr (filter (\<lambda>p. \<not> go_eq (fst p) (fst p)) sm, ())"
proof -
  have "filter (\<lambda>p. \<not> (go_eq (fst p) (fst p) \<and> fst p \<in> fst ` set sm)) sm
          = filter (\<lambda>p. \<not> go_eq (fst p) (fst p)) sm"
    by (intro filter_cong) auto
  then show ?thesis
    unfolding sync_Range_def fst_conv clear_loop by simp
qed

text \<open>What \<^verbatim>\<open>Clear\<close> leaves: the entries under keys that do not equal themselves.\<close>

lemma Clear_free:
  assumes "\<not> globalLock w" "idle m"
  shows "Clear (w, m) =
           Inr (w, \<lparr>syncMap = Some (filter (\<lambda>p. \<not> go_eq (fst p) (fst p)) (entries m)),
                    localLock = Some False\<rparr>)"
  using assms sync_Range_clear[of "entries m"]
  by (simp add: Clear_def lazyInit_free localLock_initialised syncMap_initialised
      mutex_Lock_def mutex_Unlock_def)

lemma Range_empty:
  assumes "\<not> globalLock w"
  shows "Range' K V fn ((w, \<lparr>syncMap = Some [], localLock = Some False\<rparr>), s)
           = Inr ((w, \<lparr>syncMap = Some [], localLock = Some False\<rparr>), s)"
  using assms
  by (simp add: Range'_def lazyInit_free initialised_def mutex_Lock_def mutex_Unlock_def sync_Range_def)

text \<open>
  Where every key of the container equals itself, \<^verbatim>\<open>Clear\<close> leaves no entry and a
  \<^verbatim>\<open>Range\<close> that follows does not invoke its visitor.
\<close>

lemma Clear_matched_keys:
  assumes "\<not> globalLock w" and "idle m" and "\<forall>p \<in> set (entries m). go_eq (fst p) (fst p)"
  shows "Clear (w, m) = Inr (w, \<lparr>syncMap = Some [], localLock = Some False\<rparr>) \<and>
         Range' K V fn ((w, \<lparr>syncMap = Some [], localLock = Some False\<rparr>), s)
           = Inr ((w, \<lparr>syncMap = Some [], localLock = Some False\<rparr>), s)"
proof -
  from assms(3) have "filter (\<lambda>p. \<not> go_eq (fst p) (fst p)) (entries m) = []"
    by (simp add: filter_empty_conv)
  with assms(1,2) show ?thesis
    by (simp add: Clear_free Range_empty)
qed

text \<open>
  Claim C5. \<^verbatim>\<open>Clear()\<close> removes every entry, and a \<^verbatim>\<open>Range\<close> that follows invokes its
  visitor zero times. The code does so where every key equals itself
  (\<open>Clear_matched_keys\<close>). \<^verbatim>\<open>Clear\<close> deletes key by key, and the delete of a not-a-number
  key matches no entry: on \<^verbatim>\<open>SyncMap[float64, string]\<close> after \<^verbatim>\<open>Store(NaN, "x")\<close>, \<^verbatim>\<open>Clear\<close>
  returns with the entry still in place, and the \<^verbatim>\<open>Range\<close> that follows invokes its
  visitor once.
\<close>

theorem Clear_keeps_NaN_entry:
  "Store (Some (DFloat NaN)) (Some (DString ''x'')) (world0, zero_SyncMap) = Inr (world0, mapNaN) \<and>
   Clear (world0, mapNaN) = Inr (world0, mapNaN) \<and>
   Range' (Concrete TFloat64) (Concrete TString) countCalls ((world0, mapNaN), 0)
     = Inr ((world0, mapNaN), 1)"
  by (simp add: world0_def zero_SyncMap_def mapNaN_def Store_free Clear_free idle_def
      initialised_def entries_def
      Range'_def lazyInit_def mutex_Lock_def mutex_Unlock_def sync_Range_def wrappedFn_def
      type_assert_def countCalls_def)

subsection \<open>Range\<close>

lemma wrappedFn_panic:
  "snd (type_assert K key) \<Longrightarrow> snd (type_assert V v) \<Longrightarrow> fn key v c = (Inl (Panic r), (w', s')) \<Longrightarrow>
   wrappedFn K V fn key v c = Inr (True, (w'\<lparr>logger := logger w' @ [RangePanic r]\<rparr>, s'))"
  by (simp add: wrappedFn_def split_beta type_assert_ok)

lemma wrappedFn_mismatch:
  "\<not> (snd (type_assert K key) \<and> snd (type_assert V v)) \<Longrightarrow>
   wrappedFn K V fn key v (w1, s1) = Inr (True, (w1\<lparr>logger := logger w1 @ [RangeAssertFailed key]\<rparr>, s1))"
  by (auto simp: wrappedFn_def split_beta)

lemma wrappedFn_as_continue: "wrappedFn K V (as_continue fn) key v c = wrappedFn K V fn key v c"
proof -
  obtain r w' s' where f: "fn (fst (type_assert K key)) (fst (type_assert V v)) c = (r, (w', s'))"
    by (metis surj_pair)
  show ?thesis
    by (cases r) (auto simp: wrappedFn_def as_continue_def f split_beta split: fault.splits)
qed

lemma Range_as_continue: "Range' K V (as_continue fn) st = Range' K V fn st"
  by (simp add: Range'_def wrappedFn_as_continue)

text \<open>The wrapped callback on one entry, by cases.\<close>

lemma wrappedFn_cases:
  "wrappedFn K V fn key v c =
     (if \<not> (snd (type_assert K key) \<and> snd (type_assert V v))
      then Inr (True, report (RangeAssertFailed key) c)
      else (case fn key v c of
              (Inl (Panic r), c') \<Rightarrow> Inr (True, report (RangePanic r) c')
            | (Inl Blocked, _) \<Rightarrow> Inl Blocked
            | (Inl (Fatal x), _) \<Rightarrow> Inl (Fatal x)
            | (Inr b, c') \<Rightarrow> Inr (b, c')))"
proof (cases "snd (type_assert K key) \<and> snd (type_assert V v)")
  case True
  then have t: "fst (type_assert K key) = key" "fst (type_assert V v) = v"
    by (simp_all add: type_assert_ok)
  obtain r w' s' where f: "fn key v c = (r, (w', s'))"
    by (metis surj_pair)
  show ?thesis
    using True t f
    by (cases r) (auto simp: wrappedFn_def report_def split_beta split: fault.splits)
next
  case False
  then show ?thesis
    by (cases c) (auto simp: wrappedFn_def report_def split_beta)
qed

lemma wrappedFn_total:
  assumes "\<forall>k v st. fst (fn k v st) \<noteq> Inl Blocked \<and> (\<forall>x. fst (fn k v st) \<noteq> Inl (Fatal x))"
  shows "\<exists>b c'. wrappedFn K V fn key v c = Inr (b, c')"
proof (cases "snd (type_assert K key) \<and> snd (type_assert V v)")
  case True
  obtain r st' where f: "fn (fst (type_assert K key)) (fst (type_assert V v)) c = (r, st')"
    by (cases "fn (fst (type_assert K key)) (fst (type_assert V v)) c")
  with assms have "r \<noteq> Inl Blocked" "\<And>x. r \<noteq> Inl (Fatal x)"
    by (metis fst_conv)+
  then show ?thesis using True f
    by (cases r; cases st') (auto simp: wrappedFn_def split_beta split: fault.splits)
next
  case False
  then show ?thesis
    by (cases c) (auto simp: wrappedFn_def split_beta)
qed

lemma range_loop_wrapped:
  assumes "\<forall>k v st. fst (fn k v st) \<noteq> Inl Blocked \<and> (\<forall>x. fst (fn k v st) \<noteq> Inl (Fatal x))"
  shows "\<exists>c'. range_loop (\<lambda>key v (sm', c). andThen (wrappedFn K V fn key v c) (\<lambda>(b, c'). Inr (b, (sm', c'))))
            es (sm, c) = Inr (sm, c')"
proof (induction es arbitrary: c)
  case Nil
  then show ?case by simp
next
  case (Cons e es)
  obtain key v0 where e: "e = (key, v0)" by (cases e)
  show ?case
  proof (cases "go_eq key key \<and> go_lookup sm key = None")
    case True
    with Cons e show ?thesis by simp
  next
    case False
    then obtain v where v: "(if go_eq key key then go_lookup sm key else Some v0) = Some v"
      by (cases "go_eq key key") auto
    from wrappedFn_total[OF assms] obtain b c1 where "wrappedFn K V fn key v c = Inr (b, c1)"
      by blast
    with v e Cons[of c1] show ?thesis
      by (cases "go_eq key key") auto
  qed
qed

lemma Range_returns:
  assumes "\<not> globalLock w" "idle m"
    and "\<forall>k v st. fst (fn k v st) \<noteq> Inl Blocked \<and> (\<forall>x. fst (fn k v st) \<noteq> Inl (Fatal x))"
  shows "\<exists>w' s'. Range' K V fn ((w, m), s) = Inr ((w', initialised m), s')"
proof -
  from range_loop_wrapped[OF assms(3)] obtain c' where
    "range_loop (\<lambda>key v (sm', c). andThen (wrappedFn K V fn key v c) (\<lambda>(b, c'). Inr (b, (sm', c'))))
            (entries m) (entries m, (w, s)) = Inr (entries m, c')"
    by blast
  then show ?thesis
    using assms(1,2)
    by (cases c') (simp add: Range'_def lazyInit_free localLock_initialised syncMap_initialised
        mutex_Lock_def mutex_Unlock_def sync_Range_def initialised_restore)
qed

text \<open>
  The loop of \<^verbatim>\<open>Range\<close> over entries that the store still holds as they were is the
  traversal of those entries.
\<close>

lemma range_loop_traverse:
  assumes "\<forall>p \<in> set es. go_eq (fst p) (fst p) \<longrightarrow> go_lookup sm (fst p) = Some (snd p)"
  shows "range_loop (\<lambda>key v (sm', c). andThen (wrappedFn K V fn key v c) (\<lambda>(b, c'). Inr (b, (sm', c'))))
            es (sm, c)
         = (case traverse K V fn es c of Inl e \<Rightarrow> Inl e | Inr c' \<Rightarrow> Inr (sm, c'))"
  using assms
proof (induction es arbitrary: c)
  case Nil
  then show ?case by simp
next
  case (Cons e es)
  obtain key v0 where e: "e = (key, v0)" by (cases e)
  from Cons.prems e have here: "(if go_eq key key then go_lookup sm key else Some v0) = Some v0"
    by simp
  from Cons.prems have rest: "\<forall>p \<in> set es. go_eq (fst p) (fst p) \<longrightarrow> go_lookup sm (fst p) = Some (snd p)"
    by simp
  note ih = Cons.IH[OF rest]
  show ?case
  proof (cases "snd (type_assert K key) \<and> snd (type_assert V v0)")
    case False
    then show ?thesis
      using e here ih[of "report (RangeAssertFailed key) c"]
      by (auto simp: wrappedFn_cases)
  next
    case True
    obtain r c1 where f: "fn key v0 c = (r, c1)" by (cases "fn key v0 c")
    show ?thesis
    proof (cases r)
      case (Inl flt)
      show ?thesis
      proof (cases flt)
        case (Panic x)
        with Inl True e here f ih[of "report (RangePanic x) c1"] show ?thesis
          by (auto simp: wrappedFn_cases)
      next
        case Blocked
        with Inl True e here f show ?thesis
          by (auto simp: wrappedFn_cases)
      next
        case (Fatal x)
        with Inl True e here f show ?thesis
          by (auto simp: wrappedFn_cases)
      qed
    next
      case (Inr b)
      then show ?thesis
        using True e here f ih[of c1]
        by (cases b) (auto simp: wrappedFn_cases)
    qed
  qed
qed

lemma Range_traverses:
  assumes "\<not> globalLock w" and "idle m" and "keys_once (entries m)"
  shows "Range' K V fn ((w, m), s)
           = (case traverse K V fn (entries m) (w, s) of
                Inl e \<Rightarrow> Inl e
              | Inr (w', s') \<Rightarrow> Inr ((w', initialised m), s'))"
proof -
  have "\<forall>p \<in> set (entries m). go_eq (fst p) (fst p) \<longrightarrow> go_lookup (entries m) (fst p) = Some (snd p)"
    using assms(3) by (auto intro: keys_once_lookup)
  from range_loop_traverse[OF this, of K V fn "(w, s)"]
  show ?thesis
    using assms(1,2)
    by (simp add: Range'_def lazyInit_free localLock_initialised syncMap_initialised
        mutex_Lock_def mutex_Unlock_def sync_Range_def initialised_restore
        split: sum.splits)
qed

text \<open>
  Claim C4. In \<^verbatim>\<open>Range\<close>, an entry on which the visitor panics, and an entry whose key or
  value fails its type assertion, each add one diagnostic to the log and make the wrapped
  callback return the continue signal. \<^verbatim>\<open>Range\<close> over a container between calls, whose
  store holds every key that equals itself once (as each store reached from the empty one
  does), is the traversal of all its entries in which such an entry is reported and the
  next entry is taken; it is \<^verbatim>\<open>Range\<close> with the visitor that logs and continues where
  \<open>fn\<close> panics. For
  a visitor that neither blocks nor kills the process, \<^verbatim>\<open>Range\<close> returns normally, with
  the local lock released and the entries as they were.
\<close>

theorem Range_isolates_faults:
  assumes "\<not> globalLock w" and "idle m" and "keys_once (entries m)"
    and "\<forall>k v st. fst (fn k v st) \<noteq> Inl Blocked \<and> (\<forall>x. fst (fn k v st) \<noteq> Inl (Fatal x))"
  shows "(\<forall>key v c r w' s'.
            snd (type_assert K key) \<and> snd (type_assert V v) \<and> fn key v c = (Inl (Panic r), (w', s')) \<longrightarrow>
            wrappedFn K V fn key v c = Inr (True, (w'\<lparr>logger := logger w' @ [RangePanic r]\<rparr>, s'))) \<and>
         (\<forall>key v w1 s1.
            \<not> (snd (type_assert K key) \<and> snd (type_assert V v)) \<longrightarrow>
            wrappedFn K V fn key v (w1, s1) =
              Inr (True, (w1\<lparr>logger := logger w1 @ [RangeAssertFailed key]\<rparr>, s1))) \<and>
         Range' K V fn ((w, m), s) = Range' K V (as_continue fn) ((w, m), s) \<and>
         (\<exists>w' s'. traverse K V fn (entries m) (w, s) = Inr (w', s') \<and>
                  Range' K V fn ((w, m), s) = Inr ((w', initialised m), s') \<and>
                  localLock (initialised m) = Some False \<and> entries (initialised m) = entries m)"
proof (intro conjI allI impI)
  fix key v c r w' s'
  assume "snd (type_assert K key) \<and> snd (type_assert V v) \<and> fn key v c = (Inl (Panic r), (w', s'))"
  then show "wrappedFn K V fn key v c = Inr (True, (w'\<lparr>logger := logger w' @ [RangePanic r]\<rparr>, s'))"
    by (simp add: wrappedFn_panic)
next
  fix key v w1 s1
  assume "\<not> (snd (type_assert K key) \<and> snd (type_assert V v))"
  then show "wrappedFn K V fn key v (w1, s1) =
              Inr (True, (w1\<lparr>logger := logger w1 @ [RangeAssertFailed key]\<rparr>, s1))"
    by (rule wrappedFn_mismatch)
next
  show "Range' K V fn ((w, m), s) = Range' K V (as_continue fn) ((w, m), s)"
    by (simp add: Range_as_continue)
next
  from Range_returns[OF assms(1,2,4), of K V s] obtain w' s' where
    r: "Range' K V fn ((w, m), s) = Inr ((w', initialised m), s')"
    by blast
  with Range_traverses[OF assms(1,2,3), of K V fn s]
  have "traverse K V fn (entries m) (w, s) = Inr (w', s')"
    by (auto split: sum.splits)
  with r localLock_initialised[OF assms(2)]
  show "\<exists>w' s'. traverse K V fn (entries m) (w, s) = Inr (w', s') \<and>
                  Range' K V fn ((w, m), s) = Inr ((w', initialised m), s') \<and>
                  localLock (initialised m) = Some False \<and> entries (initialised m) = entries m"
    by (simp add: entries_initialised)
qed

theorem Range_isolates_faults_witness:
  "\<not> globalLock world0 \<and> idle mapA \<and> keys_once (entries mapA) \<and>
   panicsOnOne (Some (DInt 1)) (Some (DString ''x'')) (world0, 0) = (Inl (Panic ''boom''), (world0, 1)) \<and>
   wrappedFn (Concrete TInt) (Concrete TString) panicsOnOne (Some (DInt 1)) (Some (DString ''x'')) (world0, 0)
     = Inr (True, (world0\<lparr>logger := [RangePanic ''boom'']\<rparr>, 1)) \<and>
   Range' (Concrete TInt) (Concrete TString) panicsOnOne ((world0, mapA), 0)
     = Inr ((world0\<lparr>logger := [RangePanic ''boom'']\<rparr>, mapA), 2) \<and>
   idle mapNil \<and> keys_once (entries mapNil) \<and>
   wrappedFn (Interface UNIV) (Concrete TString) countCalls None (Some (DString ''x'')) (world0, 0)
     = Inr (True, (world0\<lparr>logger := [RangeAssertFailed None]\<rparr>, 0)) \<and>
   traverse (Interface UNIV) (Concrete TString) countCalls (entries mapNil) (world0, 0)
     = Inr (world0\<lparr>logger := [RangeAssertFailed None]\<rparr>, 1) \<and>
   Range' (Interface UNIV) (Concrete TString) countCalls ((world0, mapNil), 0)
     = Inr ((world0\<lparr>logger := [RangeAssertFailed None]\<rparr>, mapNil), 1)"
proof -
  have h: "\<not> globalLock world0" by (simp add: world0_def)
  have iA: "idle mapA" and iN: "idle mapNil" by (simp_all add: idle_def mapA_def mapNil_def)
  have kA: "keys_once (entries mapA)" and kN: "keys_once (entries mapNil)"
    by (simp_all add: keys_once_def entries_def mapA_def mapNil_def)
  have vp: "\<forall>k v st. fst (panicsOnOne k v st) \<noteq> Inl Blocked \<and> (\<forall>x. fst (panicsOnOne k v st) \<noteq> Inl (Fatal x))"
    by (simp add: panicsOnOne_def split_beta)
  have vc: "\<forall>k v st. fst (countCalls k v st) \<noteq> Inl Blocked \<and> (\<forall>x. fst (countCalls k v st) \<noteq> Inl (Fatal x))"
    by (simp add: countCalls_def split_beta)
  have p: "panicsOnOne (Some (DInt 1)) (Some (DString ''x'')) (world0, 0) = (Inl (Panic ''boom''), (world0, 1))"
    by (simp add: panicsOnOne_def)
  have ta: "snd (type_assert (Concrete TInt) (Some (DInt 1))) \<and>
            snd (type_assert (Concrete TString) (Some (DString ''x''))) \<and>
            \<not> snd (type_assert (Interface UNIV) None)"
    by (simp add: type_assert_def)
  have iiA: "initialised mapA = mapA" and iiN: "initialised mapNil = mapNil"
    by (simp_all add: initialised_def mapA_def mapNil_def)
  have tA: "traverse (Concrete TInt) (Concrete TString) panicsOnOne (entries mapA) (world0, 0)
              = Inr (world0\<lparr>logger := [RangePanic ''boom'']\<rparr>, 2)"
    by (simp add: entries_def mapA_def type_assert_def panicsOnOne_def report_def world0_def)
  have tN: "traverse (Interface UNIV) (Concrete TString) countCalls (entries mapNil) (world0, 0)
              = Inr (world0\<lparr>logger := [RangeAssertFailed None]\<rparr>, 1)"
    by (simp add: entries_def mapNil_def type_assert_def countCalls_def report_def world0_def)
  note A = Range_isolates_faults[OF h iA kA vp, where K = "Concrete TInt" and V = "Concrete TString" and s = 0]
  note N = Range_isolates_faults[OF h iN kN vc, where K = "Interface UNIV" and V = "Concrete TString" and s = 0]
  from A p ta
  have wA: "wrappedFn (Concrete TInt) (Concrete TString) panicsOnOne (Some (DInt 1)) (Some (DString ''x'')) (world0, 0)
          = Inr (True, (world0\<lparr>logger := logger world0 @ [RangePanic ''boom'']\<rparr>, 1))"
    by blast
  from N ta
  have wN: "wrappedFn (Interface UNIV) (Concrete TString) countCalls None (Some (DString ''x'')) (world0, 0)
          = Inr (True, (world0\<lparr>logger := logger world0 @ [RangeAssertFailed None]\<rparr>, 0))"
    by blast
  from A tA iiA
  have rA: "Range' (Concrete TInt) (Concrete TString) panicsOnOne ((world0, mapA), 0)
     = Inr ((world0\<lparr>logger := [RangePanic ''boom'']\<rparr>, mapA), 2)"
    by auto
  from N tN iiN
  have rN: "Range' (Interface UNIV) (Concrete TString) countCalls ((world0, mapNil), 0)
     = Inr ((world0\<lparr>logger := [RangeAssertFailed None]\<rparr>, mapNil), 1)"
    by auto
  from h iA iN kA kN p wA wN rA rN tN show ?thesis
    by (simp add: world0_def)
qed

subsection \<open>Merge\<close>





text \<open>\<open>found\<close> is the flag that \<^verbatim>\<open>Load\<close> returns.\<close>

lemma Load_found:
  assumes "\<not> globalLock w"
  shows "\<exists>x. Load V k (w, m) = Inr ((x, found V m k), w, initialised m)"
  using assms
  by (auto simp: found_def Load_free holds_def sync_Load_def type_assert_def split: option.splits)






end
